theory Spec2Isabelle
  imports Main "HOL-Library.Sublist" "HOL-Library.Multiset"
begin

section \<open>String helpers of the Python runtime\<close>

text \<open>\<^verbatim>\<open>sep.join(parts)\<close>: the parts with the separator between neighbours.\<close>

fun str_join :: "string \<Rightarrow> string list \<Rightarrow> string" where
  "str_join sep [] = []"
| "str_join sep [s] = s"
| "str_join sep (s # t # ss) = s @ sep @ str_join sep (t # ss)"

text \<open>\<^verbatim>\<open>s.startswith(p)\<close>.\<close>

definition startswith :: "string \<Rightarrow> string \<Rightarrow> bool" where
  "startswith s p = prefix p s"

text \<open>
  \<^verbatim>\<open>s.replace(old, new)\<close>: the occurrences of \<open>old\<close> are found from left to right
  and do not overlap; each is replaced by \<open>new\<close>. With an empty \<open>old\<close> Python puts
  \<open>new\<close> before every character and at the end.
\<close>

function replace_nonempty :: "string \<Rightarrow> string \<Rightarrow> string \<Rightarrow> string" where
  "replace_nonempty old new [] = []"
| "replace_nonempty old new (c # cs) =
     (if old \<noteq> [] \<and> prefix old (c # cs)
      then new @ replace_nonempty old new (drop (length old) (c # cs))
      else c # replace_nonempty old new cs)"
  by pat_completeness auto
termination
  by (relation "measure (\<lambda>(old, new, s). length s)") (auto simp: neq_Nil_conv)

definition str_replace :: "string \<Rightarrow> string \<Rightarrow> string \<Rightarrow> string" where
  "str_replace s old new =
     (if old = [] then new @ concat (map (\<lambda>c. c # new) s)
      else replace_nonempty old new s)"

section \<open>The cost function (eval/ast_based.py)\<close>

text \<open>The dictionary literal \<^verbatim>\<open>score_list\<close> of \<^verbatim>\<open>local_dist\<close>, key by key.\<close>

definition score_list :: "(string \<times> int) list" where
  "score_list =
    [(''FLAG_-ls:::'', 0),
     ('':::FLAG_-ls'', 0),
     (''FLAG_-print:::'', 0),
     ('':::FLAG_-print'', 0),
     (''FLAG_-print0:::'', 0),
     ('':::FLAG_-print0'', 0),
     (''FLAG_-name:::FLAG_-iname'', 0),
     (''FLAG_-iname:::FLAG_-name'', 0),
     (''FLAG_-regex:::FLAG_-iregex'', 0),
     (''FLAG_-iregex:::FLAG_-regex'', 0),
     (''FLAG_-name:::FLAG_-regex'', 0),
     (''FLAG_-regex:::FLAG_-name'', 0),
     (''FLAG_-name:::FLAG_-iregex'', 0),
     (''FLAG_-iregex:::FLAG_-name'', 0),
     (''FLAG_-iname:::FLAG_-regex'', 0),
     (''FLAG_-regex:::FLAG_-iname'', 0),
     (''FLAG_-iname:::FLAG_-iregex'', 0),
     (''FLAG_-iregex:::FLAG_-iname'', 0)]"

definition local_dist :: "string \<Rightarrow> string \<Rightarrow> bool \<Rightarrow> int" where
  "local_dist s1 s2 skip_argument =
    (let pair_key = str_join '':::'' [s1, s2] in
     case map_of score_list pair_key of
       Some v \<Rightarrow> v
     | None \<Rightarrow>
         if s1 = s2 then 0
         else if startswith s1 ''ARGUMENT_'' \<and> startswith s2 ''ARGUMENT_'' \<and> skip_argument
           then 0
           else 1)"

definition str_local_dist :: "string \<Rightarrow> string \<Rightarrow> int" where
  "str_local_dist s1 s2 = local_dist s1 s2 False"

definition temp_local_dist :: "string \<Rightarrow> string \<Rightarrow> int" where
  "temp_local_dist s1 s2 = local_dist s1 s2 True"

text \<open>
  The two label sets the cost table is built from, and the table's keys as pairs of
  labels (each key of \<open>score_list\<close> is such a pair joined by \<^verbatim>\<open>:::\<close>).
\<close>

definition ignorable_labels :: "string set" where
  "ignorable_labels = {''FLAG_-ls'', ''FLAG_-print'', ''FLAG_-print0''}"

definition synonym_labels :: "string set" where
  "synonym_labels = {''FLAG_-name'', ''FLAG_-iname'', ''FLAG_-regex'', ''FLAG_-iregex''}"

definition zero_pairs :: "(string \<times> string) list" where
  "zero_pairs =
    [(''FLAG_-ls'', []), ([], ''FLAG_-ls''),
     (''FLAG_-print'', []), ([], ''FLAG_-print''),
     (''FLAG_-print0'', []), ([], ''FLAG_-print0''),
     (''FLAG_-name'', ''FLAG_-iname''), (''FLAG_-iname'', ''FLAG_-name''),
     (''FLAG_-regex'', ''FLAG_-iregex''), (''FLAG_-iregex'', ''FLAG_-regex''),
     (''FLAG_-name'', ''FLAG_-regex''), (''FLAG_-regex'', ''FLAG_-name''),
     (''FLAG_-name'', ''FLAG_-iregex''), (''FLAG_-iregex'', ''FLAG_-name''),
     (''FLAG_-iname'', ''FLAG_-regex''), (''FLAG_-regex'', ''FLAG_-iname''),
     (''FLAG_-iname'', ''FLAG_-iregex''), (''FLAG_-iregex'', ''FLAG_-iname'')]"

section \<open>Command trees and the external collaborators\<close>

text \<open>
  Modelled from the spec: the node class \<^verbatim>\<open>nast.Node\<close> is not part of the sources at
  hand. A node has a kind, a value, an argument type and an ordered list of children
  (section 3 of the specification); these are the fields the code under study reads.
\<close>

datatype ast = Node (kind: string) (val: string) (arg_type: string) (children: "ast list")

fun nodes :: "ast \<Rightarrow> nat" where
  "nodes (Node k v a cs) = Suc (sum_list (map nodes cs))"

text \<open>
  The functions of the \<^verbatim>\<open>bashlex\<close> and \<^verbatim>\<open>nlp_tools\<close> packages that the code calls and
  whose bodies are not available are parameters, collected in one record:
  the parser (\<^verbatim>\<open>None\<close> for an unparsable command), the template renderer (its second
  argument is \<^verbatim>\<open>arg_type_only\<close>, \<open>None\<close> when the call leaves it at its default;
  every call passes \<^verbatim>\<open>loose_constraints=True\<close>), the template parser
  \<^verbatim>\<open>normalizer.normalize_ast\<close>, \<^verbatim>\<open>normalizer.arg_slots\<close>, the methods
  \<^verbatim>\<open>Node.is_reserved\<close> and \<^verbatim>\<open>Node.get_label\<close>, the tokenizer (its token list) and
  \<^verbatim>\<open>data_tools.cmd2template\<close>. The last field is the order in which the interpreter
  enumerates a dictionary (\<^verbatim>\<open>keys()\<close>, \<^verbatim>\<open>items()\<close>): Python 2 does not specify it,
  and it maps the entries, given in insertion order, to the order of enumeration, a
  permutation of them.
\<close>

record collaborators =
  bash_parser :: "string \<Rightarrow> ast option"
  ast2template :: "ast \<Rightarrow> bool option \<Rightarrow> string"
  normalize_ast :: "string \<Rightarrow> ast option"
  arg_slots :: "ast \<Rightarrow> (ast \<times> bool) list"
  is_reserved :: "ast \<Rightarrow> bool"
  get_label :: "ast \<Rightarrow> string"
  ner_tokenizer :: "string \<Rightarrow> string list"
  cmd2template :: "string \<Rightarrow> string"
  dict_items :: "(string \<times> string list) list \<Rightarrow> (string \<times> string list) list"

section \<open>Tree edit distance\<close>

text \<open>
  Modelled from the spec: \<^verbatim>\<open>zss.simple_distance\<close> is not part of the sources at hand.
  Section 4.3 of the specification defines it as the minimum total cost of an edit
  script of relabels, insertions and deletions that preserve the ancestor and sibling
  order, where relabelling costs \<open>cost l m\<close>, deleting a node labelled \<open>l\<close> costs
  \<open>cost l []\<close> and inserting one labelled \<open>m\<close> costs \<open>cost [] m\<close>. The classical
  recurrence on ordered forests computes this minimum: the first root of either forest
  is deleted, inserted, or the two first roots are matched (their child forests and the
  remaining forests being compared independently).
\<close>

function forest_dist ::
  "(ast \<Rightarrow> string) \<Rightarrow> (string \<Rightarrow> string \<Rightarrow> int) \<Rightarrow> ast list \<Rightarrow> ast list \<Rightarrow> int" where
  "forest_dist lab cost [] [] = 0"
| "forest_dist lab cost (Node k v a cs # F) [] =
     forest_dist lab cost (cs @ F) [] + cost (lab (Node k v a cs)) []"
| "forest_dist lab cost [] (Node k' v' a' ds # G) =
     forest_dist lab cost [] (ds @ G) + cost [] (lab (Node k' v' a' ds))"
| "forest_dist lab cost (Node k v a cs # F) (Node k' v' a' ds # G) =
     min (min (forest_dist lab cost (cs @ F) (Node k' v' a' ds # G)
                 + cost (lab (Node k v a cs)) [])
              (forest_dist lab cost (Node k v a cs # F) (ds @ G)
                 + cost [] (lab (Node k' v' a' ds))))
         (forest_dist lab cost cs ds + forest_dist lab cost F G
            + cost (lab (Node k v a cs)) (lab (Node k' v' a' ds)))"
  by pat_completeness auto
termination
  by (relation "measure (\<lambda>(lab, cost, F, G). sum_list (map nodes F) + sum_list (map nodes G))")
    auto

text \<open>
  Modelled from the spec: \<^verbatim>\<open>zss.simple_distance\<close> on two trees, with the label
  function and the label cost it is given; insertions and deletions are priced by the
  same cost against the empty label (section 4.3).
\<close>

definition simple_distance ::
  "(ast \<Rightarrow> string) \<Rightarrow> (string \<Rightarrow> string \<Rightarrow> int) \<Rightarrow> ast \<Rightarrow> ast \<Rightarrow> int" where
  "simple_distance lab label_dist A B = forest_dist lab label_dist [A] [B]"

definition str_dist :: "collaborators \<Rightarrow> ast \<Rightarrow> ast \<Rightarrow> int" where
  "str_dist E ast1 ast2 = simple_distance (get_label E) str_local_dist ast1 ast2"

definition temp_dist :: "collaborators \<Rightarrow> ast \<Rightarrow> ast \<Rightarrow> int" where
  "temp_dist E ast1 ast2 = simple_distance (get_label E) temp_local_dist ast1 ast2"

section \<open>The rewrite repository (eval/extract_rewrites.py, class DBConnection)\<close>

text \<open>
  The exceptions the modelled code can raise: sqlite's \<^verbatim>\<open>OperationalError\<close> with its
  message, Python's \<^verbatim>\<open>TypeError\<close> (a method of \<^verbatim>\<open>Node\<close> applied to \<^verbatim>\<open>None\<close>) and
  \<^verbatim>\<open>IndexError\<close>.
\<close>

datatype error = OperationalError string | TypeError | IndexError

text \<open>
  The database file: its tables by name, each a list of rows \<open>(s1, s2)\<close> in insertion
  order. A fresh file has no table. A statement on a table that does not exist raises
  \<^verbatim>\<open>OperationalError\<close>.
\<close>

type_synonym row = "string \<times> string"

type_synonym database = "string \<Rightarrow> row list option"

definition no_such_table :: "string \<Rightarrow> error" where
  "no_such_table t = OperationalError (''no such table: '' @ t)"

text \<open>\<^verbatim>\<open>CREATE TABLE IF NOT EXISTS Rewrites (s1 TEXT, s2 TEXT)\<close>\<close>

definition create_schema :: "database \<Rightarrow> database" where
  "create_schema db =
     (case db ''Rewrites'' of None \<Rightarrow> db(''Rewrites'' \<mapsto> []) | Some rows \<Rightarrow> db)"

text \<open>\<^verbatim>\<open>INSERT INTO Rewrites (s1, s2) VALUES (?, ?)\<close>\<close>

definition add_rewrite :: "database \<Rightarrow> row \<Rightarrow> error + database" where
  "add_rewrite db pair =
     (case db ''Rewrites'' of
        None \<Rightarrow> Inl (no_such_table ''Rewrites'')
      | Some rows \<Rightarrow> Inr (db(''Rewrites'' \<mapsto> rows @ [pair])))"

text \<open>\<^verbatim>\<open>SELECT s1, s2 FROM <table> WHERE s1 = ?\<close>\<close>

definition select_where_s1 :: "database \<Rightarrow> string \<Rightarrow> string \<Rightarrow> error + row list" where
  "select_where_s1 db table s1 =
     (case db table of
        None \<Rightarrow> Inl (no_such_table table)
      | Some rows \<Rightarrow> Inr (filter (\<lambda>(a, b). a = s1) rows))"

text \<open>
  A Python set is a list without duplicates here; \<^verbatim>\<open>add\<close> keeps an element that is
  already present. The order in which Python enumerates a set is not specified; the
  list fixes one.
\<close>

definition set_add :: "'a \<Rightarrow> 'a list \<Rightarrow> 'a list" where
  "set_add x xs = (if x \<in> set xs then xs else xs @ [x])"

text \<open>The query of \<^verbatim>\<open>get_rewrite_templates\<close> names the table \<^verbatim>\<open>Rewrit7es\<close>.\<close>

definition DBConnection_get_rewrite_templates :: "database \<Rightarrow> string \<Rightarrow> error + string list" where
  "DBConnection_get_rewrite_templates db s1 =
     (case select_where_s1 db ''Rewrit7es'' s1 of
        Inl e \<Rightarrow> Inl e
      | Inr rs \<Rightarrow> Inr (fold (\<lambda>(a, s2) rewrites. set_add s2 rewrites) rs [s1]))"

text \<open>\<^verbatim>\<open>SELECT 1 FROM Rewrites WHERE s1 = ? AND s2 = ?\<close>: true at the first row found.\<close>

definition exist_rewrite :: "database \<Rightarrow> row \<Rightarrow> error + bool" where
  "exist_rewrite db pair =
     (case db ''Rewrites'' of
        None \<Rightarrow> Inl (no_such_table ''Rewrites'')
      | Some rows \<Rightarrow> Inr (filter (\<lambda>r. r = pair) rows \<noteq> []))"

section \<open>The rewrite expander\<close>

text \<open>
  \<^verbatim>\<open>rewrite_fun\<close>: the first slot not yet consumed whose node has the argument type
  asked for gives its value and is marked consumed.
\<close>

fun fill_slot :: "string \<Rightarrow> (ast \<times> bool) list \<Rightarrow> (string \<times> (ast \<times> bool) list) option" where
  "fill_slot ty [] = None"
| "fill_slot ty ((n, used) # rest) =
     (if \<not> used \<and> arg_type n = ty then Some (val n, (n, True) # rest)
      else case fill_slot ty rest of
             None \<Rightarrow> None
           | Some (v, rest') \<Rightarrow> Some (v, (n, used) # rest'))"

fun rewrite_fun ::
    "collaborators \<Rightarrow> ast \<Rightarrow> (ast \<times> bool) list \<Rightarrow> ast \<times> (ast \<times> bool) list"
  and rewrite_children ::
    "collaborators \<Rightarrow> ast list \<Rightarrow> (ast \<times> bool) list \<Rightarrow> ast list \<times> (ast \<times> bool) list" where
  "rewrite_fun E (Node k v a cs) slots =
     (if k = ''argument'' \<and> \<not> is_reserved E (Node k v a cs)
      then (case fill_slot a slots of
              None \<Rightarrow> (Node k v a cs, slots)
            | Some (v', slots') \<Rightarrow> (Node k v' a cs, slots'))
      else (case rewrite_children E cs slots of (cs', slots') \<Rightarrow> (Node k v a cs', slots')))"
| "rewrite_children E [] slots = ([], slots)"
| "rewrite_children E (c # cs) slots =
     (case rewrite_fun E c slots of
        (c', slots1) \<Rightarrow>
          (case rewrite_children E cs slots1 of (cs', slots2) \<Rightarrow> (c' # cs', slots2)))"

definition rewrite :: "collaborators \<Rightarrow> ast \<Rightarrow> string \<Rightarrow> ast option" where
  "rewrite E ast temp =
     (let slots = arg_slots E ast in
      case normalize_ast E temp of
        None \<Rightarrow> None
      | Some ast2 \<Rightarrow> Some (fst (rewrite_fun E ast2 slots)))"

definition DBConnection_get_rewrites :: "collaborators \<Rightarrow> database \<Rightarrow> ast \<Rightarrow> error + ast list" where
  "DBConnection_get_rewrites E db ast =
     (let s1 = ast2template E ast None in
      case select_where_s1 db ''Rewrites'' s1 of
        Inl e \<Rightarrow> Inl e
      | Inr rs \<Rightarrow>
          Inr (fold (\<lambda>(a, s2) rewrites.
                       case rewrite E ast s2 of
                         None \<Rightarrow> rewrites
                       | Some rw \<Rightarrow> set_add rw rewrites) rs [ast]))"

text \<open>\<^verbatim>\<open>get_rewrites\<close> of eval/ast_based.py: the union over the references.\<close>

fun get_rewrites_loop ::
  "collaborators \<Rightarrow> database \<Rightarrow> ast list \<Rightarrow> ast list \<Rightarrow> error + ast list" where
  "get_rewrites_loop E db [] rewrites = Inr rewrites"
| "get_rewrites_loop E db (ast # asts) rewrites =
     (case DBConnection_get_rewrites E db ast of
        Inl e \<Rightarrow> Inl e
      | Inr rs \<Rightarrow> get_rewrites_loop E db asts (fold set_add rs rewrites))"

definition get_rewrites :: "collaborators \<Rightarrow> database \<Rightarrow> ast list \<Rightarrow> error + ast list" where
  "get_rewrites E db asts = get_rewrites_loop E db asts []"

section \<open>The evaluator (eval/ast_based.py)\<close>

definition ignore_differences :: "string \<Rightarrow> string" where
  "ignore_differences cmd =
     (let cmd = str_replace cmd ''-ls'' [];
          cmd = str_replace cmd ''-print'' [];
          cmd = str_replace cmd ''-print0'' [];
          cmd = str_replace cmd ''-name'' ''-iname'';
          cmd = str_replace cmd ''-regex'' ''-iregex''
      in cmd)"

text \<open>
  \<^verbatim>\<open>sys.maxint\<close> of a 64-bit build of Python 2. The flag that the source calls
  \<^verbatim>\<open>rewrite\<close> is \<open>do_rewrite\<close> below.
\<close>

definition sys_maxint :: int where
  "sys_maxint = 2 ^ 63 - 1"

text \<open>
  One distance of the loop of \<^verbatim>\<open>min_dist\<close>. The prediction is \<open>None\<close> when it was
  \<^verbatim>\<open>None\<close> and the placeholder did not parse either; the tree walk then fails.
\<close>

definition dist_to :: "collaborators \<Rightarrow> bool \<Rightarrow> ast option \<Rightarrow> ast \<Rightarrow> error + int" where
  "dist_to E ignore_arg_value ast2 ast1 =
     (case ast2 of
        None \<Rightarrow> Inl TypeError
      | Some p \<Rightarrow> Inr (if ignore_arg_value then temp_dist E ast1 p else str_dist E ast1 p))"

text \<open>The distance that one pass of the loop computes for a prediction \<open>p\<close>.\<close>

definition the_dist :: "collaborators \<Rightarrow> bool \<Rightarrow> ast \<Rightarrow> ast \<Rightarrow> int" where
  "the_dist E m p a = (if m then temp_dist E a p else str_dist E a p)"

fun min_dist_loop ::
  "collaborators \<Rightarrow> bool \<Rightarrow> ast option \<Rightarrow> ast list \<Rightarrow> int \<Rightarrow> error + int" where
  "min_dist_loop E ignore_arg_value ast2 [] min_dist = Inr min_dist"
| "min_dist_loop E ignore_arg_value ast2 (ast1 # rest) min_dist =
     (case dist_to E ignore_arg_value ast2 ast1 of
        Inl e \<Rightarrow> Inl e
      | Inr dist \<Rightarrow>
          min_dist_loop E ignore_arg_value ast2 rest (if dist < min_dist then dist else min_dist))"

definition min_dist ::
  "collaborators \<Rightarrow> database \<Rightarrow> ast list \<Rightarrow> ast option \<Rightarrow> bool \<Rightarrow> bool \<Rightarrow> error + int" where
  "min_dist E db asts ast2 do_rewrite ignore_arg_value =
     (let ast2 = (case ast2 of None \<Rightarrow> bash_parser E ''find'' | Some p \<Rightarrow> Some p) in
      case (if do_rewrite then get_rewrites E db asts else Inr asts) of
        Inl e \<Rightarrow> Inl e
      | Inr ast_rewrites \<Rightarrow> min_dist_loop E ignore_arg_value ast2 ast_rewrites sys_maxint)"

fun one_match_loop :: "collaborators \<Rightarrow> bool \<Rightarrow> string \<Rightarrow> ast list \<Rightarrow> bool" where
  "one_match_loop E ignore_arg_value cmd2 [] = False"
| "one_match_loop E ignore_arg_value cmd2 (ast1 # rest) =
     (let cmd1 = ast2template E ast1 (Some ignore_arg_value);
          cmd1 = ignore_differences cmd1
      in if cmd1 = cmd2 then True else one_match_loop E ignore_arg_value cmd2 rest)"

text \<open>\<^verbatim>\<open>one_match\<close> first prints \<^verbatim>\<open>asts[0]\<close>, which fails on an empty list.\<close>

definition one_match ::
  "collaborators \<Rightarrow> database \<Rightarrow> ast list \<Rightarrow> ast \<Rightarrow> bool \<Rightarrow> bool \<Rightarrow> error + bool" where
  "one_match E db asts ast2 do_rewrite ignore_arg_value =
     (if asts = [] then Inl IndexError
      else case (if do_rewrite then get_rewrites E db asts else Inr asts) of
        Inl e \<Rightarrow> Inl e
      | Inr ast_rewrites \<Rightarrow>
          (let cmd2 = ignore_differences (ast2template E ast2 (Some ignore_arg_value))
           in Inr (one_match_loop E ignore_arg_value cmd2 ast_rewrites)))"

definition template_match :: "collaborators \<Rightarrow> ast \<Rightarrow> ast \<Rightarrow> bool" where
  "template_match E ast1 ast2 =
     (let temp1 = ignore_differences (ast2template E ast1 None);
          temp2 = ignore_differences (ast2template E ast2 None)
      in temp1 = temp2)"

definition string_match :: "collaborators \<Rightarrow> ast \<Rightarrow> ast \<Rightarrow> bool" where
  "string_match E ast1 ast2 =
     (let str1 = ignore_differences (ast2template E ast1 (Some False));
          str2 = ignore_differences (ast2template E ast2 (Some False))
      in str1 = str2)"

section \<open>The rewrite extractor (eval/extract_rewrites.py, extract_rewrites)\<close>

text \<open>\<^verbatim>\<open>str.strip()\<close> and \<^verbatim>\<open>str.lower()\<close> on byte strings.\<close>

definition is_space :: "char \<Rightarrow> bool" where
  "is_space c = (c \<in> set [CHR 0x20, CHR 0x09, CHR 0x0A, CHR 0x0B, CHR 0x0C, CHR 0x0D])"

definition strip :: "string \<Rightarrow> string" where
  "strip s = rev (dropWhile is_space (rev (dropWhile is_space s)))"

definition lower_char :: "char \<Rightarrow> char" where
  "lower_char c =
     (let n = (of_char c :: nat) in if 65 \<le> n \<and> n \<le> 90 then char_of (n + 32) else c)"

definition lower :: "string \<Rightarrow> string" where
  "lower s = map lower_char s"

text \<open>
  A dictionary from keys to template sets is an association list with distinct keys.
  Step 1 builds \<^verbatim>\<open>group_pairs_by_nl\<close> in insertion order; reading a missing key of
  the \<^verbatim>\<open>defaultdict\<close> creates it with the empty set. Steps 2 to 4 work on the list
  \<^verbatim>\<open>nls = group_pairs_by_nl.keys()\<close>, the dictionary in its order of enumeration:
  index \<open>i\<close> of that list is the group of \<^verbatim>\<open>nls[i]\<close>.
\<close>

type_synonym groups = "(string \<times> string list) list"

definition group_add :: "groups \<Rightarrow> string \<Rightarrow> string \<Rightarrow> groups" where
  "group_add gs nl_temp cm_temp =
     (case map_of gs nl_temp of
        None \<Rightarrow> gs @ [(nl_temp, [cm_temp])]
      | Some ts \<Rightarrow>
          map (\<lambda>(k, ts). if k = nl_temp then (k, set_add cm_temp ts) else (k, ts)) gs)"

text \<open>Step 1: group pairs with the same natural language description.\<close>

definition group_step :: "collaborators \<Rightarrow> string \<times> string \<Rightarrow> groups \<Rightarrow> groups" where
  "group_step E p gs =
     (let nl = strip (fst p); cm = strip (snd p) in
      if lower nl = ''na'' then gs
      else if nl = [] then gs
      else if cm = [] then gs
      else
        (let nl_temp = str_join '' '' (ner_tokenizer E nl);
             cm_temp = cmd2template E cm
         in group_add gs nl_temp cm_temp))"

definition group_pairs_by_nl :: "collaborators \<Rightarrow> string list \<Rightarrow> string list \<Rightarrow> groups" where
  "group_pairs_by_nl E nls cms = fold (group_step E) (zip nls cms) []"

text \<open>
  Step 2: cluster the commands with the same natural language explanations. One
  pass of the inner loop body, for the indices \<open>i\<close> and \<open>j\<close>: the state is the
  dictionary and the set \<^verbatim>\<open>merged\<close>.
\<close>

definition merge_pair :: "nat \<Rightarrow> nat \<Rightarrow> groups \<times> nat list \<Rightarrow> groups \<times> nat list" where
  "merge_pair i j st =
     (case st of (gs, merged) \<Rightarrow>
        (let cm_temp_set = snd (gs ! i);
             cm_temp_set2 = snd (gs ! j)
         in if 2 \<le> length (filter (\<lambda>t. t \<in> set cm_temp_set2) cm_temp_set)
            then (gs[j := (fst (gs ! j), fold set_add cm_temp_set cm_temp_set2)],
                  set_add i merged)
            else (gs, merged)))"

definition merge_from :: "nat \<Rightarrow> groups \<times> nat list \<Rightarrow> groups \<times> nat list" where
  "merge_from i st = fold (merge_pair i) [Suc i ..< length (fst st)] st"

definition cluster :: "groups \<Rightarrow> groups \<times> nat list" where
  "cluster gs = fold merge_from [0 ..< length gs] (gs, [])"

text \<open>
  The test of the inner loop on the groups \<open>i\<close> and \<open>j\<close> of a dictionary, and the
  state of the outer loop when the turn of index \<open>k\<close> comes.
\<close>

definition share_two :: "groups \<Rightarrow> nat \<Rightarrow> nat \<Rightarrow> bool" where
  "share_two gs i j = (2 \<le> length (filter (\<lambda>t. t \<in> set (snd (gs ! j))) (snd (gs ! i))))"

definition cluster_upto :: "groups \<Rightarrow> nat \<Rightarrow> groups \<times> nat list" where
  "cluster_upto gs k = fold merge_from [0 ..< k] (gs, [])"

text \<open>Step 3: remove redundant clusters after merge.\<close>

definition survivors :: "groups \<times> nat list \<Rightarrow> groups" where
  "survivors st =
     (case st of (gs, merged) \<Rightarrow>
        map (\<lambda>i. gs ! i) (filter (\<lambda>i. i \<notin> set merged) [0 ..< length gs]))"

text \<open>
  Step 4: store in database. The surviving groups were put into the new dictionary
  \<^verbatim>\<open>rewrites\<close> in index order, and \<^verbatim>\<open>rewrites.items()\<close> enumerates them in the order
  of that dictionary. \<^verbatim>\<open>sorted(..., key=..., reverse=True)\<close> is stable: it sorts the
  reversed list in ascending order and reverses the result, so groups of equal size
  stay in the order of \<^verbatim>\<open>items()\<close>. The slice \<^verbatim>\<open>[:10]\<close> keeps the first ten.
\<close>

definition sorted_by_size_desc :: "groups \<Rightarrow> groups" where
  "sorted_by_size_desc rs = rev (sort_key (\<lambda>x. length (snd x)) (rev rs))"

fun fold_err :: "('a \<Rightarrow> 's \<Rightarrow> error + 's) \<Rightarrow> 'a list \<Rightarrow> 's \<Rightarrow> error + 's" where
  "fold_err f [] s = Inr s"
| "fold_err f (x # xs) s = (case f x s of Inl e \<Rightarrow> Inl e | Inr s' \<Rightarrow> fold_err f xs s')"

definition store_pair :: "string \<Rightarrow> string \<Rightarrow> database \<Rightarrow> error + database" where
  "store_pair cm_temp1 cm_temp2 db =
     (if cm_temp1 = cm_temp2 then Inr db
      else case exist_rewrite db (cm_temp1, cm_temp2) of
             Inl e \<Rightarrow> Inl e
           | Inr found \<Rightarrow> if \<not> found then add_rewrite db (cm_temp1, cm_temp2) else Inr db)"

definition store_group :: "string \<times> string list \<Rightarrow> database \<Rightarrow> error + database" where
  "store_group g db =
     (let cm_temps = snd g in
      if 2 \<le> length cm_temps
      then fold_err (\<lambda>cm_temp1. fold_err (\<lambda>cm_temp2. store_pair cm_temp1 cm_temp2) cm_temps)
             cm_temps db
      else Inr db)"

definition store_rewrites :: "collaborators \<Rightarrow> groups \<Rightarrow> database \<Rightarrow> error + database" where
  "store_rewrites E rewrites db =
     fold_err store_group (take 10 (sorted_by_size_desc (dict_items E rewrites)))
       (create_schema db)"

text \<open>Steps 2 to 4, on the groups in the order of \<^verbatim>\<open>nls\<close>.\<close>

definition extract_from_groups :: "collaborators \<Rightarrow> groups \<Rightarrow> database \<Rightarrow> error + database" where
  "extract_from_groups E gs db = store_rewrites E (survivors (cluster gs)) db"

definition extract_rewrites ::
  "collaborators \<Rightarrow> string list \<times> string list \<Rightarrow> database \<Rightarrow> error + database" where
  "extract_rewrites E data db =
     (case data of (nls, cms) \<Rightarrow>
        extract_from_groups E (dict_items E (group_pairs_by_nl E nls cms)) db)"

text \<open>The rows of the table \<^verbatim>\<open>Rewrites\<close>; none when the table does not exist.\<close>

definition stored :: "database \<Rightarrow> row list" where
  "stored db = (case db ''Rewrites'' of None \<Rightarrow> [] | Some rows \<Rightarrow> rows)"

text \<open>The ordered pairs of different templates of a group of at least two templates.\<close>

definition pairs_of :: "string \<times> string list \<Rightarrow> row set" where
  "pairs_of g =
     {(t1, t2). 2 \<le> length (snd g) \<and> t1 \<in> set (snd g) \<and> t2 \<in> set (snd g) \<and> t1 \<noteq> t2}"

text \<open>
  A database that has the table \<^verbatim>\<open>Rewrites\<close> and agrees with \<open>db0\<close> on every other
  table.
\<close>

definition same_but_rewrites :: "database \<Rightarrow> database \<Rightarrow> bool" where
  "same_but_rewrites db0 db =
     (db ''Rewrites'' \<noteq> None \<and> (\<forall>t. t \<noteq> ''Rewrites'' \<longrightarrow> db t = db0 t))"

text \<open>
  An example: eleven groups without a common template, one of two templates and ten of
  three.
\<close>

definition eleven_groups :: groups where
  "eleven_groups =
     [(''n0'', [''y1'', ''y2'']),
      (''n1'', [''a1'', ''b1'', ''c1'']), (''n2'', [''a2'', ''b2'', ''c2'']),
      (''n3'', [''a3'', ''b3'', ''c3'']), (''n4'', [''a4'', ''b4'', ''c4'']),
      (''n5'', [''a5'', ''b5'', ''c5'']), (''n6'', [''a6'', ''b6'', ''c6'']),
      (''n7'', [''a7'', ''b7'', ''c7'']), (''n8'', [''a8'', ''b8'', ''c8'']),
      (''n9'', [''a9'', ''b9'', ''c9'']), (''n10'', [''a10'', ''b10'', ''c10''])]"

section \<open>A concrete instance of the collaborators\<close>

text \<open>
  To run the model on examples: a command or template is one node whose value is the
  text, the renderer gives that text back, the label is kind and value joined by an
  underscore, the tokenizer and \<^verbatim>\<open>cmd2template\<close> leave their input as it is, and
  a dictionary is enumerated in insertion order.
\<close>

definition example_env :: collaborators where
  "example_env =
     \<lparr>bash_parser = (\<lambda>s. if s = [] then None else Some (Node ''UTILITY'' s [] [])),
      ast2template = (\<lambda>t m. val t),
      normalize_ast = (\<lambda>s. if s = [] then None else Some (Node ''UTILITY'' s [] [])),
      arg_slots = (\<lambda>t. []),
      is_reserved = (\<lambda>t. False),
      get_label = (\<lambda>t. kind t @ ''_'' @ val t),
      ner_tokenizer = (\<lambda>s. [s]),
      cmd2template = (\<lambda>s. s),
      dict_items = (\<lambda>d. d)\<rparr>"

section \<open>Properties of the cost function\<close>

lemma pair_key_unique:
  assumes a: "CHR '':'' \<notin> set a" and b: "CHR '':'' \<notin> set b"
  shows "(s1 @ '':::'' @ s2 = a @ '':::'' @ b) = (s1 = a \<and> s2 = b)"
proof
  assume eq: "s1 @ '':::'' @ s2 = a @ '':::'' @ b"
  have "length (filter (\<lambda>c. c = CHR '':'') (s1 @ '':::'' @ s2))
      = length (filter (\<lambda>c. c = CHR '':'') (a @ '':::'' @ b))"
    using eq by simp
  moreover have "filter (\<lambda>c. c = CHR '':'') a = []" "filter (\<lambda>c. c = CHR '':'') b = []"
    using a b by (auto simp: filter_empty_conv)
  ultimately have "filter (\<lambda>c. c = CHR '':'') s1 = []"
    by simp
  then have s1: "CHR '':'' \<notin> set s1" by (auto simp: filter_empty_conv)
  have tw: "\<And>xs ys. CHR '':'' \<notin> set xs \<Longrightarrow>
      takeWhile (\<lambda>c. c \<noteq> CHR '':'') (xs @ '':::'' @ ys) = xs"
    by (auto simp: takeWhile_tail takeWhile_eq_all_conv)
  have "s1 = a" using tw[OF s1, of s2] tw[OF a, of b] eq by simp
  with eq show "s1 = a \<and> s2 = b" by simp
qed simp

lemma score_list_pairs:
  "score_list = map (\<lambda>(a, b). (a @ '':::'' @ b, 0)) zero_pairs"
  by (simp add: score_list_def zero_pairs_def)

lemma map_of_keyed:
  assumes "\<forall>(a, b) \<in> set ps. CHR '':'' \<notin> set a \<and> CHR '':'' \<notin> set b"
  shows "map_of (map (\<lambda>(a, b). (a @ '':::'' @ b, v)) ps) (s1 @ '':::'' @ s2)
       = (if (s1, s2) \<in> set ps then Some v else None)"
  using assms
proof (induction ps)
  case Nil
  then show ?case by simp
next
  case (Cons p ps)
  obtain a b where p: "p = (a, b)" by (cases p)
  from Cons.prems p have ab: "CHR '':'' \<notin> set a" "CHR '':'' \<notin> set b" by auto
  have "(a @ '':::'' @ b = s1 @ '':::'' @ s2) = (s1 = a \<and> s2 = b)"
    using pair_key_unique[OF ab, of s1 s2] by metis
  with Cons p show ?case by auto
qed

lemma zero_pairs_colon_free:
  "\<forall>(a, b) \<in> set zero_pairs. CHR '':'' \<notin> set a \<and> CHR '':'' \<notin> set b"
  by (simp add: zero_pairs_def)

lemma zero_pairs_iff:
  "(s1, s2) \<in> set zero_pairs \<longleftrightarrow>
     (s1 = [] \<and> s2 \<in> ignorable_labels) \<or> (s2 = [] \<and> s1 \<in> ignorable_labels)
        \<or> (s1 \<in> synonym_labels \<and> s2 \<in> synonym_labels \<and> s1 \<noteq> s2)"
proof
  assume "(s1, s2) \<in> set zero_pairs"
  then show "(s1 = [] \<and> s2 \<in> ignorable_labels) \<or> (s2 = [] \<and> s1 \<in> ignorable_labels)
        \<or> (s1 \<in> synonym_labels \<and> s2 \<in> synonym_labels \<and> s1 \<noteq> s2)"
    unfolding zero_pairs_def ignorable_labels_def synonym_labels_def
    by (elim set_ConsD[elim_format] disjE) simp_all
next
  assume "(s1 = [] \<and> s2 \<in> ignorable_labels) \<or> (s2 = [] \<and> s1 \<in> ignorable_labels)
        \<or> (s1 \<in> synonym_labels \<and> s2 \<in> synonym_labels \<and> s1 \<noteq> s2)"
  then show "(s1, s2) \<in> set zero_pairs"
    unfolding zero_pairs_def ignorable_labels_def synonym_labels_def
    by (elim disjE conjE insertE emptyE) simp_all
qed

lemma map_of_score_list:
  "map_of score_list (s1 @ '':::'' @ s2) =
    (if (s1, s2) \<in> set zero_pairs then Some 0 else None)"
  unfolding score_list_pairs
  by (rule map_of_keyed[OF zero_pairs_colon_free])

lemma local_dist_cases:
  "local_dist s1 s2 skip =
    (if (s1, s2) \<in> set zero_pairs then 0
     else if s1 = s2 then 0
     else if startswith s1 ''ARGUMENT_'' \<and> startswith s2 ''ARGUMENT_'' \<and> skip then 0
     else 1)"
  unfolding local_dist_def Let_def str_join.simps map_of_score_list
  by simp

lemma local_dist_nonneg: "0 \<le> local_dist s1 s2 skip"
  by (simp add: local_dist_cases)

lemma local_dist_refl: "local_dist s s skip = 0"
  by (simp add: local_dist_cases)

text \<open>
  Claim C4. \<open>local_dist\<close> is the cost table: it is 0 when the labels are equal, when
  one label is empty and the other is one of \<^verbatim>\<open>FLAG_-ls\<close>, \<^verbatim>\<open>FLAG_-print\<close>,
  \<^verbatim>\<open>FLAG_-print0\<close>, when the labels are two different flags among \<^verbatim>\<open>FLAG_-name\<close>,
  \<^verbatim>\<open>FLAG_-iname\<close>, \<^verbatim>\<open>FLAG_-regex\<close>, \<^verbatim>\<open>FLAG_-iregex\<close>, and when both labels start with
  \<^verbatim>\<open>ARGUMENT_\<close> and \<^verbatim>\<open>skip_argument\<close> is set; it is 1 in every other case.
\<close>

theorem local_dist_table:
  "local_dist s1 s2 skip =
    (if s1 = s2
        \<or> (s1 = [] \<and> s2 \<in> ignorable_labels) \<or> (s2 = [] \<and> s1 \<in> ignorable_labels)
        \<or> (s1 \<in> synonym_labels \<and> s2 \<in> synonym_labels \<and> s1 \<noteq> s2)
        \<or> (skip \<and> startswith s1 ''ARGUMENT_'' \<and> startswith s2 ''ARGUMENT_'')
     then 0 else 1)"
proof (cases "(s1, s2) \<in> set zero_pairs")
  case True
  then show ?thesis
    using zero_pairs_iff[of s1 s2] by (simp add: local_dist_cases) blast
next
  case False
  then show ?thesis
    using zero_pairs_iff[of s1 s2] by (simp add: local_dist_cases) blast
qed

text \<open>The three values of scenario A, and the argument rule in both modes.\<close>

theorem local_dist_table_witness:
  "local_dist ''FLAG_-name'' ''FLAG_-iname'' False = 0
   \<and> local_dist ''FLAG_-name'' ''FLAG_-user'' False = 1
   \<and> local_dist ''FLAG_-print'' [] False = 0
   \<and> local_dist ''ARGUMENT_a'' ''ARGUMENT_b'' True = 0
   \<and> local_dist ''ARGUMENT_a'' ''ARGUMENT_b'' False = 1"
  using local_dist_table[of "''FLAG_-name''" "''FLAG_-iname''" False]
    local_dist_table[of "''FLAG_-name''" "''FLAG_-user''" False]
    local_dist_table[of "''FLAG_-print''" "[]" False]
    local_dist_table[of "''ARGUMENT_a''" "''ARGUMENT_b''" True]
    local_dist_table[of "''ARGUMENT_a''" "''ARGUMENT_b''" False]
  by (simp add: ignorable_labels_def synonym_labels_def startswith_def)

section \<open>Properties of the tree edit distance\<close>

lemma forest_dist_nonneg:
  "(\<forall>a b. 0 \<le> cost a b) \<Longrightarrow> 0 \<le> forest_dist lab cost F G"
proof (induction lab cost F G rule: forest_dist.induct)
  case (1 lab cost)
  then show ?case by simp
next
  case (2 lab cost k v a cs F)
  then show ?case by (simp add: add_nonneg_nonneg)
next
  case (3 lab cost k' v' a' ds G)
  then show ?case by (simp add: add_nonneg_nonneg)
next
  case (4 lab cost k v a cs F k' v' a' ds G)
  then show ?case by (simp add: add_nonneg_nonneg)
qed

lemma forest_dist_self_le:
  assumes refl: "\<forall>l. cost l l = 0"
  shows "forest_dist lab cost F F \<le> 0"
proof (induction "sum_list (map nodes F)" arbitrary: F rule: less_induct)
  case less
  show ?case
  proof (cases F)
    case Nil
    then show ?thesis by simp
  next
    case (Cons t F')
    obtain k v a cs where t: "t = Node k v a cs" by (cases t)
    have "sum_list (map nodes cs) < sum_list (map nodes F)"
      and "sum_list (map nodes F') < sum_list (map nodes F)"
      using Cons t by simp_all
    then have "forest_dist lab cost cs cs \<le> 0" and "forest_dist lab cost F' F' \<le> 0"
      using less by blast+
    moreover have "forest_dist lab cost F F
        \<le> forest_dist lab cost cs cs + forest_dist lab cost F' F' + cost (lab t) (lab t)"
      unfolding Cons t by simp
    ultimately show ?thesis using refl by simp
  qed
qed

lemma str_dist_nonneg: "0 \<le> str_dist E a b"
  using forest_dist_nonneg[of str_local_dist "get_label E" "[a]" "[b]"]
  by (simp add: str_dist_def simple_distance_def str_local_dist_def local_dist_nonneg)

lemma temp_dist_nonneg: "0 \<le> temp_dist E a b"
  using forest_dist_nonneg[of temp_local_dist "get_label E" "[a]" "[b]"]
  by (simp add: temp_dist_def simple_distance_def temp_local_dist_def local_dist_nonneg)

text \<open>
  Claim C5. The edit distance of a tree to itself is 0 in both comparison modes:
  \<open>str_dist T T = 0\<close> and \<open>temp_dist T T = 0\<close>, whatever the labels of the nodes are.
\<close>

theorem ted_identity:
  "str_dist E T T = 0 \<and> temp_dist E T T = 0"
proof -
  have "forest_dist (get_label E) str_local_dist [T] [T] = 0"
    using forest_dist_self_le[of str_local_dist "get_label E" "[T]"]
      forest_dist_nonneg[of str_local_dist "get_label E" "[T]" "[T]"]
    by (simp add: str_local_dist_def local_dist_refl local_dist_nonneg)
  moreover have "forest_dist (get_label E) temp_local_dist [T] [T] = 0"
    using forest_dist_self_le[of temp_local_dist "get_label E" "[T]"]
      forest_dist_nonneg[of temp_local_dist "get_label E" "[T]" "[T]"]
    by (simp add: temp_local_dist_def local_dist_refl local_dist_nonneg)
  ultimately show ?thesis
    by (simp add: str_dist_def temp_dist_def simple_distance_def)
qed

section \<open>Properties of the repository\<close>

lemma get_rewrite_templates_no_table:
  "db ''Rewrit7es'' = None \<Longrightarrow>
     DBConnection_get_rewrite_templates db t = Inl (OperationalError ''no such table: Rewrit7es'')"
  by (simp add: DBConnection_get_rewrite_templates_def select_where_s1_def no_such_table_def)

text \<open>
  Claim C3. \<open>get_rewrite_templates\<close> should return, without error, the templates
  \<open>s2\<close> stored with \<open>t\<close>. It does not: its query names the table \<^verbatim>\<open>Rewrit7es\<close>,
  which no code creates, so after the extraction of a corpus whose single group holds
  \<^verbatim>\<open>find . -iname ARG\<close>, \<^verbatim>\<open>find . -name ARG\<close> and \<^verbatim>\<open>locate ARG\<close> the pair is stored
  and the lookup raises \<^verbatim>\<open>OperationalError\<close>.
\<close>

theorem get_rewrite_templates_fails:
  "case extract_rewrites example_env
          ([''find files named foo'', ''find files named foo'', ''find files named foo''],
           [''find . -iname ARG'', ''find . -name ARG'', ''locate ARG'']) Map.empty of
     Inl e \<Rightarrow> False
   | Inr db \<Rightarrow>
       (''find . -iname ARG'', ''find . -name ARG'') \<in> set (stored db)
       \<and> DBConnection_get_rewrite_templates db ''find . -iname ARG''
           = Inl (OperationalError ''no such table: Rewrit7es'')"
  by code_simp

text \<open>
  Claim C7, as stated: \<open>add_rewrite\<close> on a pair already stored leaves the store
  unchanged. It does not: the insert is unconditional and the table has no uniqueness
  constraint, so the pair is stored a second time.
\<close>

theorem add_rewrite_duplicates:
  "exist_rewrite (Map.empty(''Rewrites'' \<mapsto> [(''s1'', ''s2'')])) (''s1'', ''s2'') = Inr True
   \<and> add_rewrite (Map.empty(''Rewrites'' \<mapsto> [(''s1'', ''s2'')])) (''s1'', ''s2'')
       = Inr (Map.empty(''Rewrites'' \<mapsto> [(''s1'', ''s2''), (''s1'', ''s2'')]))
   \<and> stored (Map.empty(''Rewrites'' \<mapsto> [(''s1'', ''s2''), (''s1'', ''s2'')]))
       \<noteq> stored (Map.empty(''Rewrites'' \<mapsto> [(''s1'', ''s2'')]))"
  by (simp add: exist_rewrite_def add_rewrite_def stored_def)

text \<open>
  Claim C7, amended. The idempotent insert is the check-then-insert of the extractor
  (\<open>exist_rewrite\<close>, then \<open>add_rewrite\<close> only when the pair is absent): for a pair
  already stored it succeeds and leaves the database unchanged, whereas \<open>add_rewrite\<close>
  itself succeeds and appends one more row.
\<close>

theorem store_pair_idempotent:
  assumes "(s1, s2) \<in> set (stored db)"
  shows "store_pair s1 s2 db = Inr db
     \<and> add_rewrite db (s1, s2) = Inr (db(''Rewrites'' \<mapsto> stored db @ [(s1, s2)]))"
proof -
  obtain rows where rows: "db ''Rewrites'' = Some rows" "(s1, s2) \<in> set rows"
    using assms by (cases "db ''Rewrites''") (auto simp: stored_def)
  then show ?thesis
    by (auto simp: store_pair_def exist_rewrite_def add_rewrite_def stored_def filter_empty_conv)
qed

theorem store_pair_idempotent_witness:
  "(''s1'', ''s2'') \<in> set (stored (Map.empty(''Rewrites'' \<mapsto> [(''s1'', ''s2'')])))
   \<and> store_pair ''s1'' ''s2'' (Map.empty(''Rewrites'' \<mapsto> [(''s1'', ''s2'')]))
       = Inr (Map.empty(''Rewrites'' \<mapsto> [(''s1'', ''s2'')]))"
  using store_pair_idempotent[of "''s1''" "''s2''" "Map.empty(''Rewrites'' \<mapsto> [(''s1'', ''s2'')])"]
  by (simp add: stored_def)
section \<open>Properties of the expander\<close>

lemma set_fold_set_add: "set (fold set_add xs acc) = set xs \<union> set acc"
  by (induction xs arbitrary: acc) (auto simp: set_add_def)

lemma fold_rewrite_keeps:
  "x \<in> set acc \<Longrightarrow>
     x \<in> set (fold (\<lambda>(a, s2) rewrites.
                       case rewrite E ast s2 of
                         None \<Rightarrow> rewrites
                       | Some rw \<Rightarrow> set_add rw rewrites) xs acc)"
  by (induction xs arbitrary: acc) (auto simp: set_add_def split: option.splits)

lemma DBConnection_get_rewrites_ok:
  assumes "db ''Rewrites'' = Some rows"
  shows "\<exists>rs. DBConnection_get_rewrites E db ast = Inr rs \<and> ast \<in> set rs"
  using assms fold_rewrite_keeps[of ast "[ast]" E ast]
  by (simp add: DBConnection_get_rewrites_def select_where_s1_def)

lemma get_rewrites_loop_ok:
  assumes "db ''Rewrites'' = Some rows"
  shows "\<exists>cs. get_rewrites_loop E db asts acc = Inr cs \<and> set asts \<union> set acc \<subseteq> set cs"
proof (induction asts arbitrary: acc)
  case Nil
  then show ?case by simp
next
  case (Cons a asts)
  obtain rs where rs: "DBConnection_get_rewrites E db a = Inr rs" "a \<in> set rs"
    using DBConnection_get_rewrites_ok[of db rows E a] assms by blast
  obtain cs where "get_rewrites_loop E db asts (fold set_add rs acc) = Inr cs"
    "set asts \<union> set (fold set_add rs acc) \<subseteq> set cs"
    using Cons.IH by blast
  with rs show ?case by (auto simp: set_fold_set_add)
qed

lemma get_rewrites_ok:
  assumes "db ''Rewrites'' = Some rows"
  shows "\<exists>cs. get_rewrites E db asts = Inr cs \<and> set asts \<subseteq> set cs"
  using get_rewrites_loop_ok[of db rows E asts "[]"] assms by (simp add: get_rewrites_def)

section \<open>Properties of the evaluator\<close>

text \<open>
  Claim C10. With an empty reference list \<open>min_dist\<close> compares no tree and raises
  nothing: it returns the value \<^verbatim>\<open>sys.maxint\<close> the running minimum starts from, for
  every prediction, both values of the rewrite flag and both comparison modes.
\<close>

theorem min_dist_empty_refs:
  "min_dist E db [] p rw m = Inr sys_maxint \<and> sys_maxint = 9223372036854775807"
  by (simp add: min_dist_def get_rewrites_def sys_maxint_def)

lemma min_dist_loop_Some:
  "min_dist_loop E m (Some p) xs init = Inr (Min (insert init (the_dist E m p ` set xs)))"
proof (induction xs arbitrary: init)
  case Nil
  then show ?case by simp
next
  case (Cons a xs)
  have "Min (insert (min (the_dist E m p a) init) (the_dist E m p ` set xs))
      = Min (insert init (insert (the_dist E m p a) (the_dist E m p ` set xs)))"
    by (cases "the_dist E m p ` set xs = {}") (simp_all add: Min_insert2 min.commute min.left_commute min.assoc)
  moreover have "(if the_dist E m p a < init then the_dist E m p a else init)
      = min (the_dist E m p a) init"
    by (simp add: min_def)
  ultimately show ?case
    using Cons.IH[of "min (the_dist E m p a) init"]
    by (simp add: dist_to_def the_dist_def[symmetric] insert_commute)
qed

lemma min_dist_loop_None:
  "min_dist_loop E m None xs init = (if xs = [] then Inr init else Inl TypeError)"
  by (cases xs) (simp_all add: dist_to_def)


lemma min_dist_Some_eval:
  "min_dist E db asts (Some p) rw m =
     (case (if rw then get_rewrites E db asts else Inr asts) of
        Inl e \<Rightarrow> Inl e
      | Inr cs \<Rightarrow> Inr (Min (insert sys_maxint (the_dist E m p ` set cs))))"
  by (simp add: min_dist_def min_dist_loop_Some split: sum.splits)

text \<open>
  Claim C2. With a readable rewrite table, \<open>min_dist\<close> with rewrites is at most
  \<open>min_dist\<close> without, for every prediction, every list of references and both
  comparison modes: the expansion keeps every reference among the candidates. The two
  calls fail together only when there is no prediction and the placeholder does not
  parse.
\<close>

theorem min_dist_rewrite_le:
  assumes "db ''Rewrites'' = Some rows"
  shows "case (min_dist E db refs p True m, min_dist E db refs p False m) of
           (Inr d1, Inr d2) \<Rightarrow> d1 \<le> d2
         | (Inl e1, Inl e2) \<Rightarrow> p = None \<and> bash_parser E ''find'' = None
         | _ \<Rightarrow> False"
proof -
  obtain cs where cs: "get_rewrites E db refs = Inr cs" "set refs \<subseteq> set cs"
    using get_rewrites_ok[of db rows E refs] assms by blast
  define q where "q = (case p of None \<Rightarrow> bash_parser E ''find'' | Some t \<Rightarrow> Some t)"
  have T: "min_dist E db refs p True m = min_dist_loop E m q cs sys_maxint"
    and F: "min_dist E db refs p False m = min_dist_loop E m q refs sys_maxint"
    using cs by (simp_all add: min_dist_def q_def)
  show ?thesis
  proof (cases q)
    case None
    then have pn: "p = None \<and> bash_parser E ''find'' = None"
      by (simp add: q_def split: option.splits)
    have "cs = [] \<longleftrightarrow> refs = []"
      using cs by (auto simp: get_rewrites_def)
    then show ?thesis
      unfolding T F using None pn by (simp add: min_dist_loop_None)
  next
    case (Some t)
    have "Min (insert sys_maxint (the_dist E m t ` set cs))
        \<le> Min (insert sys_maxint (the_dist E m t ` set refs))"
      using cs(2) by (intro Min_antimono) auto
    then show ?thesis
      unfolding T F using Some by (simp add: min_dist_loop_Some)
  qed
qed

theorem min_dist_rewrite_le_witness:
  "(Map.empty(''Rewrites'' \<mapsto> [(''locate'', ''find'')])) ''Rewrites'' = Some [(''locate'', ''find'')]
   \<and> min_dist example_env (Map.empty(''Rewrites'' \<mapsto> [(''locate'', ''find'')]))
         [Node ''UTILITY'' ''locate'' [] []] (Some (Node ''UTILITY'' ''find'' [] [])) True False = Inr 0
   \<and> min_dist example_env (Map.empty(''Rewrites'' \<mapsto> [(''locate'', ''find'')]))
         [Node ''UTILITY'' ''locate'' [] []] (Some (Node ''UTILITY'' ''find'' [] [])) False False = Inr 1"
  using min_dist_rewrite_le[where db = "Map.empty(''Rewrites'' \<mapsto> [(''locate'', ''find'')])"
      and rows = "[(''locate'', ''find'')]" and E = example_env
      and refs = "[Node ''UTILITY'' ''locate'' [] []]"
      and p = "Some (Node ''UTILITY'' ''find'' [] [])" and m = False]
  by code_simp


text \<open>
  Claim C6. With a non-empty list of references, a placeholder \<^verbatim>\<open>find\<close> that parses
  and, when rewrites are asked for, a rewrite table that exists, \<open>min_dist\<close> on the
  prediction \<^verbatim>\<open>None\<close> raises nothing: it returns what it returns on the parse of the
  placeholder, a number between 0 and \<^verbatim>\<open>sys.maxint\<close>.
\<close>

theorem min_dist_null_prediction:
  assumes "bash_parser E ''find'' = Some fb" and "refs \<noteq> []"
    and "rw \<longrightarrow> db ''Rewrites'' \<noteq> None"
  shows "\<exists>d. min_dist E db refs None rw m = Inr d \<and> 0 \<le> d \<and> d \<le> sys_maxint
           \<and> min_dist E db refs (Some fb) rw m = Inr d"
proof -
  have sub: "min_dist E db refs None rw m = min_dist E db refs (Some fb) rw m"
    using assms(1) by (simp add: min_dist_def)
  obtain cs where cs: "(if rw then get_rewrites E db refs else Inr refs) = Inr cs"
    proof (cases rw)
      case True
      then obtain rows where "db ''Rewrites'' = Some rows" using assms(3) by auto
      then show ?thesis using get_rewrites_ok[of db rows E refs] True that by auto
    next
      case False
      then show ?thesis using that by simp
    qed
  let ?S = "insert sys_maxint (the_dist E m fb ` set cs)"
  have val: "min_dist E db refs (Some fb) rw m = Inr (Min ?S)"
    using cs by (simp add: min_dist_Some_eval)
  have "\<forall>x \<in> ?S. 0 \<le> x"
    by (auto simp: sys_maxint_def the_dist_def str_dist_nonneg temp_dist_nonneg)
  then have "0 \<le> Min ?S" by (simp del: insert_iff)
  moreover have "Min ?S \<le> sys_maxint" by simp
  ultimately show ?thesis using sub val by simp
qed


theorem min_dist_null_prediction_witness:
  "bash_parser example_env ''find'' = Some (Node ''UTILITY'' ''find'' [] [])
   \<and> [Node ''UTILITY'' ''locate'' [] []] \<noteq> []
   \<and> (Map.empty(''Rewrites'' \<mapsto> [(''locate'', ''find'')])) ''Rewrites'' \<noteq> None
   \<and> min_dist example_env (Map.empty(''Rewrites'' \<mapsto> [(''locate'', ''find'')]))
         [Node ''UTILITY'' ''locate'' [] []] None True False = Inr 0
   \<and> min_dist example_env (Map.empty(''Rewrites'' \<mapsto> [(''locate'', ''find'')]))
         [Node ''UTILITY'' ''locate'' [] []] None False False = Inr 1"
proof -
  have p: "bash_parser example_env ''find'' = Some (Node ''UTILITY'' ''find'' [] [])"
    by (simp add: example_env_def)
  have t: "min_dist example_env (Map.empty(''Rewrites'' \<mapsto> [(''locate'', ''find'')]))
         [Node ''UTILITY'' ''locate'' [] []] (Some (Node ''UTILITY'' ''find'' [] [])) True False = Inr 0"
    by code_simp
  have f: "min_dist example_env (Map.empty(''Rewrites'' \<mapsto> [(''locate'', ''find'')]))
         [Node ''UTILITY'' ''locate'' [] []] (Some (Node ''UTILITY'' ''find'' [] [])) False False = Inr 1"
    by code_simp
  show ?thesis
    using p t f
      min_dist_null_prediction[where E = example_env
        and fb = "Node ''UTILITY'' ''find'' [] []"
        and refs = "[Node ''UTILITY'' ''locate'' [] []]" and rw = True
        and db = "Map.empty(''Rewrites'' \<mapsto> [(''locate'', ''find'')])" and m = False]
      min_dist_null_prediction[where E = example_env
        and fb = "Node ''UTILITY'' ''find'' [] []"
        and refs = "[Node ''UTILITY'' ''locate'' [] []]" and rw = False
        and db = "Map.empty(''Rewrites'' \<mapsto> [(''locate'', ''find'')])" and m = False]
    by simp
qed


lemma ignore_differences_print: "ignore_differences ''find . -print'' = ''find . ''"
  by code_simp

lemma ignore_differences_plain: "ignore_differences ''find .'' = ''find .''"
  by code_simp

lemma get_rewrites_empty_store:
  assumes "db ''Rewrites'' = Some []"
  shows "get_rewrites E db [r] = Inr [r]"
  using assms
  by (simp add: get_rewrites_def DBConnection_get_rewrites_def select_where_s1_def set_add_def)

text \<open>
  Claim C1. When the prediction renders as \<^verbatim>\<open>find . -print\<close> and the only reference
  as \<^verbatim>\<open>find .\<close>, the exact match should hold. It does not: \<open>ignore_differences\<close>
  removes the text \<^verbatim>\<open>-print\<close> and leaves the blank before it, so the normalised
  strings differ and \<open>one_match\<close> and \<open>template_match\<close> answer false (here with no
  rewrite stored).
\<close>

theorem exact_match_print_fails:
  assumes "\<forall>md. ast2template E p md = ''find . -print''"
    and "\<forall>md. ast2template E r md = ''find .''"
    and "db ''Rewrites'' = Some []"
  shows "one_match E db [r] p rw iav = Inr False \<and> \<not> template_match E r p
     \<and> \<not> template_match E p r"
  using assms get_rewrites_empty_store[of db E r]
  by (simp add: one_match_def template_match_def ignore_differences_print
      ignore_differences_plain)

theorem exact_match_print_fails_witness:
  "(\<forall>md. ast2template example_env (Node ''ROOT'' ''find . -print'' [] []) md = ''find . -print'')
   \<and> (\<forall>md. ast2template example_env (Node ''ROOT'' ''find .'' [] []) md = ''find .'')
   \<and> (Map.empty(''Rewrites'' \<mapsto> [])) ''Rewrites'' = Some []
   \<and> one_match example_env (Map.empty(''Rewrites'' \<mapsto> []))
        [Node ''ROOT'' ''find .'' [] []] (Node ''ROOT'' ''find . -print'' [] []) True False
        = Inr False
   \<and> \<not> template_match example_env (Node ''ROOT'' ''find .'' [] [])
          (Node ''ROOT'' ''find . -print'' [] [])"
  using exact_match_print_fails[where E = example_env
      and p = "Node ''ROOT'' ''find . -print'' [] []" and r = "Node ''ROOT'' ''find .'' [] []"
      and db = "Map.empty(''Rewrites'' \<mapsto> [])" and rw = True and iav = False]
  by (simp add: example_env_def)


section \<open>Properties of the extractor\<close>

lemma merge_pair_eq:
  "merge_pair i j (gs, m) =
     (if share_two gs i j
      then (gs[j := (fst (gs ! j), fold set_add (snd (gs ! i)) (snd (gs ! j)))], set_add i m)
      else (gs, m))"
  by (simp add: merge_pair_def share_two_def Let_def)

lemma share_two_card:
  "distinct (snd (gs ! i)) \<Longrightarrow>
     share_two gs i j \<longleftrightarrow> 2 \<le> card (set (snd (gs ! i)) \<inter> set (snd (gs ! j)))"
proof -
  assume d: "distinct (snd (gs ! i))"
  have "{x. x \<in> set (snd (gs ! j))} \<inter> set (snd (gs ! i))
      = set (snd (gs ! i)) \<inter> set (snd (gs ! j))" by auto
  then show ?thesis
    using distinct_length_filter[OF d, of "\<lambda>t. t \<in> set (snd (gs ! j))"]
    by (simp add: share_two_def)
qed

lemma distinct_fold_set_add: "distinct acc \<Longrightarrow> distinct (fold set_add xs acc)"
  by (induction xs arbitrary: acc) (auto simp: set_add_def)

lemma fold_merge_pair:
  assumes "i \<notin> set js" "distinct js" "\<forall>j \<in> set js. j < length gs"
  shows "length (fst (fold (merge_pair i) js (gs, m))) = length gs
    \<and> map fst (fst (fold (merge_pair i) js (gs, m))) = map fst gs
    \<and> (\<forall>k. k \<notin> set js \<longrightarrow> fst (fold (merge_pair i) js (gs, m)) ! k = gs ! k)
    \<and> (\<forall>j \<in> set js. snd (fst (fold (merge_pair i) js (gs, m)) ! j) =
          (if share_two gs i j then fold set_add (snd (gs ! i)) (snd (gs ! j))
           else snd (gs ! j)))
    \<and> set (snd (fold (merge_pair i) js (gs, m)))
         = set m \<union> {k. k = i \<and> (\<exists>j \<in> set js. share_two gs i j)}"
  using assms
proof (induction js arbitrary: gs m)
  case Nil
  then show ?case by simp
next
  case (Cons j js)
  obtain gs1 m1 where st1: "merge_pair i j (gs, m) = (gs1, m1)" by fastforce
  have len1: "length gs1 = length gs"
    using st1 by (auto simp: merge_pair_eq split: if_splits)
  have keys1: "map fst gs1 = map fst gs"
    using st1 Cons.prems by (auto simp: merge_pair_eq map_update list_update_same_conv split: if_splits)
  have other1: "\<And>k. k \<noteq> j \<Longrightarrow> gs1 ! k = gs ! k"
    using st1 by (auto simp: merge_pair_eq split: if_splits)
  have at1: "snd (gs1 ! j) = (if share_two gs i j then fold set_add (snd (gs ! i)) (snd (gs ! j))
           else snd (gs ! j))"
    using st1 Cons.prems by (auto simp: merge_pair_eq split: if_splits)
  have m1: "set m1 = set m \<union> {k. k = i \<and> share_two gs i j}"
    using st1 by (auto simp: merge_pair_eq set_add_def split: if_splits)
  have ij: "i \<noteq> j" "j \<notin> set js" "i \<notin> set js" using Cons.prems by auto
  have sh: "share_two gs1 i j' = share_two gs i j'" if "j' \<in> set js" for j'
  proof -
    have "j' \<noteq> j" using that ij by auto
    then show ?thesis using other1[of j'] other1[of i] ij by (simp add: share_two_def)
  qed
  have prem: "i \<notin> set js" "distinct js" "\<forall>j \<in> set js. j < length gs1"
    using Cons.prems len1 by auto
  note IH = Cons.IH[OF prem, of m1]
  have f: "fold (merge_pair i) (j # js) (gs, m) = fold (merge_pair i) js (gs1, m1)"
    using st1 by simp
  show ?case
    unfolding f
  proof (intro conjI allI ballI impI)
    show "length (fst (fold (merge_pair i) js (gs1, m1))) = length gs"
      using IH len1 by simp
    show "map fst (fst (fold (merge_pair i) js (gs1, m1))) = map fst gs"
      using IH keys1 by simp
    show "fst (fold (merge_pair i) js (gs1, m1)) ! k = gs ! k" if "k \<notin> set (j # js)" for k
      using IH that other1[of k] by simp
    show "snd (fst (fold (merge_pair i) js (gs1, m1)) ! j') =
          (if share_two gs i j' then fold set_add (snd (gs ! i)) (snd (gs ! j'))
           else snd (gs ! j'))" if "j' \<in> set (j # js)" for j'
    proof (cases "j' = j")
      case True
      then have "fst (fold (merge_pair i) js (gs1, m1)) ! j' = gs1 ! j"
        using IH ij by simp
      then show ?thesis using at1 True by simp
    next
      case False
      then have in': "j' \<in> set js" using that by simp
      then have "j' \<noteq> i" using ij by auto
      then show ?thesis
        using IH in' sh[OF in'] other1[of j'] other1[of i] False ij by simp
    qed
    show "set (snd (fold (merge_pair i) js (gs1, m1)))
         = set m \<union> {k. k = i \<and> (\<exists>j \<in> set (j # js). share_two gs i j)}"
      using IH m1 sh by auto
  qed
qed


lemma merge_from_spec:
  "length (fst (merge_from i (gs, m))) = length gs
    \<and> map fst (fst (merge_from i (gs, m))) = map fst gs
    \<and> (\<forall>k \<le> i. fst (merge_from i (gs, m)) ! k = gs ! k)
    \<and> (\<forall>j. i < j \<and> j < length gs \<longrightarrow> snd (fst (merge_from i (gs, m)) ! j) =
          (if share_two gs i j then fold set_add (snd (gs ! i)) (snd (gs ! j))
           else snd (gs ! j)))
    \<and> set (snd (merge_from i (gs, m)))
         = set m \<union> {k. k = i \<and> (\<exists>j. i < j \<and> j < length gs \<and> share_two gs i j)}"
proof -
  have p: "i \<notin> set [Suc i ..< length gs]" "distinct [Suc i ..< length gs]"
    "\<forall>j \<in> set [Suc i ..< length gs]. j < length gs"
    by auto
  have "{k. k = i \<and> (\<exists>j \<in> set [Suc i ..< length gs]. share_two gs i j)}
      = {k. k = i \<and> (\<exists>j. i < j \<and> j < length gs \<and> share_two gs i j)}"
    by (auto simp: Suc_le_eq)
  then show ?thesis
    using fold_merge_pair[OF p, of m] by (auto simp: merge_from_def)
qed

lemma cluster_upto_Suc: "cluster_upto gs (Suc k) = merge_from k (cluster_upto gs k)"
  by (simp add: cluster_upto_def)

lemma cluster_upto_shape:
  "length (fst (cluster_upto gs k)) = length gs
     \<and> map fst (fst (cluster_upto gs k)) = map fst gs
     \<and> set (snd (cluster_upto gs k)) \<subseteq> {..<k}"
proof (induction k)
  case 0
  then show ?case by (simp add: cluster_upto_def)
next
  case (Suc k)
  obtain g m where st: "cluster_upto gs k = (g, m)" by fastforce
  show ?case
    using Suc merge_from_spec[of k g m] by (auto simp: cluster_upto_Suc st)
qed

lemma cluster_upto_distinct:
  assumes "\<forall>g \<in> set gs. distinct (snd g)"
  shows "\<forall>j < length gs. distinct (snd (fst (cluster_upto gs k) ! j))"
proof (induction k)
  case 0
  then show ?case using assms by (simp add: cluster_upto_def)
next
  case (Suc k)
  obtain g m where st: "cluster_upto gs k = (g, m)" by fastforce
  have len: "length g = length gs" using cluster_upto_shape[of gs k] st by simp
  show ?case
  proof (intro allI impI)
    fix j assume j: "j < length gs"
    show "distinct (snd (fst (cluster_upto gs (Suc k)) ! j))"
    proof (cases "k < j")
      case True
      then show ?thesis
        using merge_from_spec[of k g m] Suc j len st
        by (simp add: cluster_upto_Suc distinct_fold_set_add)
    next
      case False
      then have "j \<le> k" by simp
      then show ?thesis
        using merge_from_spec[of k g m] Suc j st by (simp add: cluster_upto_Suc)
    qed
  qed
qed

lemma cluster_upto_stable:
  "k \<le> k' \<Longrightarrow> i \<le> k \<Longrightarrow> fst (cluster_upto gs k') ! i = fst (cluster_upto gs k) ! i"
proof (induction k' rule: nat_induct_at_least)
  case base
  then show ?case by simp
next
  case (Suc n)
  obtain g m where st: "cluster_upto gs n = (g, m)" by fastforce
  have "i \<le> n" using Suc by simp
  then have "fst (merge_from n (g, m)) ! i = g ! i"
    using merge_from_spec[of n g m] by simp
  then show ?case using Suc st by (simp add: cluster_upto_Suc)
qed

lemma cluster_upto_merged_stable:
  "k \<le> k' \<Longrightarrow> i < k \<Longrightarrow>
     i \<in> set (snd (cluster_upto gs k')) \<longleftrightarrow> i \<in> set (snd (cluster_upto gs k))"
proof (induction k' rule: nat_induct_at_least)
  case base
  then show ?case by simp
next
  case (Suc n)
  obtain g m where st: "cluster_upto gs n = (g, m)" by fastforce
  have "i \<noteq> n" using Suc by simp
  then have "i \<in> set (snd (merge_from n (g, m))) \<longleftrightarrow> i \<in> set m"
    using merge_from_spec[of n g m] by auto
  then show ?case using Suc st by (simp add: cluster_upto_Suc)
qed


text \<open>
  Claim C8. The merge runs over the indices in order, \<open>i\<close> from first to last and
  \<open>j\<close> from \<open>i + 1\<close> to last. In the turn of \<open>i\<close>, every later group \<open>j\<close> that
  shares at least two templates with group \<open>i\<close> receives all templates of group
  \<open>i\<close>, the others stay as they are, and \<open>i\<close> is marked merged exactly when there is
  such a \<open>j\<close>. The turn of \<open>i\<close> changes no group up to \<open>i\<close>, and group \<open>i\<close> is never
  changed afterwards: nothing is merged back. The keys stay the same, and the groups
  emitted are those whose index is not marked. Template sets are lists without
  duplicates.
\<close>

theorem cluster_merge_spec:
  assumes "\<forall>g \<in> set gs. distinct (snd g)" and "i < length gs"
  shows "cluster gs = cluster_upto gs (length gs)
    \<and> cluster_upto gs (Suc i) = merge_from i (cluster_upto gs i)
    \<and> (\<forall>j. i < j \<and> j < length gs \<longrightarrow>
          set (snd (fst (cluster_upto gs (Suc i)) ! j)) =
            (if 2 \<le> card (set (snd (fst (cluster_upto gs i) ! i))
                             \<inter> set (snd (fst (cluster_upto gs i) ! j)))
             then set (snd (fst (cluster_upto gs i) ! j)) \<union> set (snd (fst (cluster_upto gs i) ! i))
             else set (snd (fst (cluster_upto gs i) ! j))))
    \<and> (i \<in> set (snd (cluster gs)) \<longleftrightarrow>
          (\<exists>j. i < j \<and> j < length gs
             \<and> 2 \<le> card (set (snd (fst (cluster_upto gs i) ! i))
                             \<inter> set (snd (fst (cluster_upto gs i) ! j)))))
    \<and> (\<forall>k \<le> i. fst (cluster_upto gs (Suc i)) ! k = fst (cluster_upto gs i) ! k)
    \<and> fst (cluster gs) ! i = fst (cluster_upto gs i) ! i
    \<and> map fst (fst (cluster gs)) = map fst gs
    \<and> survivors (cluster gs) =
        map (\<lambda>k. fst (cluster gs) ! k)
          (filter (\<lambda>k. k \<notin> set (snd (cluster gs))) [0 ..< length gs])"
proof -
  obtain g m where st: "cluster_upto gs i = (g, m)" by fastforce
  have cl: "cluster gs = cluster_upto gs (length gs)"
    by (simp add: cluster_def cluster_upto_def)
  have len: "length g = length gs"
    using cluster_upto_shape[of gs i] st by simp
  have dist: "distinct (snd (g ! i))"
    using cluster_upto_distinct[OF assms(1), of i] assms(2) st by simp
  have card: "\<And>j. share_two g i j \<longleftrightarrow> 2 \<le> card (set (snd (g ! i)) \<inter> set (snd (g ! j)))"
    using share_two_card[OF dist] by simp
  note mf = merge_from_spec[of i g m]
  have notin: "i \<notin> set m"
    using cluster_upto_shape[of gs i] st by auto
  have c3: "\<forall>j. i < j \<and> j < length gs \<longrightarrow>
          set (snd (fst (cluster_upto gs (Suc i)) ! j)) =
            (if 2 \<le> card (set (snd (g ! i)) \<inter> set (snd (g ! j)))
             then set (snd (g ! j)) \<union> set (snd (g ! i))
             else set (snd (g ! j)))"
    using mf len by (simp add: cluster_upto_Suc st card set_fold_set_add Un_commute)
  have "i \<in> set (snd (cluster gs)) \<longleftrightarrow> i \<in> set (snd (cluster_upto gs (Suc i)))"
    unfolding cl using cluster_upto_merged_stable[of "Suc i" "length gs" i gs] assms(2) by simp
  also have "\<dots> \<longleftrightarrow> (\<exists>j. i < j \<and> j < length gs \<and> share_two g i j)"
    using mf notin len by (auto simp: cluster_upto_Suc st)
  finally have c4: "i \<in> set (snd (cluster gs)) \<longleftrightarrow>
      (\<exists>j. i < j \<and> j < length gs \<and> 2 \<le> card (set (snd (g ! i)) \<inter> set (snd (g ! j))))"
    by (simp add: card)
  have c5: "\<forall>k \<le> i. fst (cluster_upto gs (Suc i)) ! k = g ! k"
    using mf by (simp add: cluster_upto_Suc st)
  have c6: "fst (cluster gs) ! i = g ! i"
    unfolding cl using cluster_upto_stable[of i "length gs" i gs] assms(2) st by simp
  have c7: "map fst (fst (cluster gs)) = map fst gs"
    unfolding cl using cluster_upto_shape[of gs "length gs"] by simp
  have c8: "survivors (cluster gs) =
        map (\<lambda>k. fst (cluster gs) ! k)
          (filter (\<lambda>k. k \<notin> set (snd (cluster gs))) [0 ..< length gs])"
  proof -
    obtain g' m' where fin: "cluster_upto gs (length gs) = (g', m')" by fastforce
    then have "length g' = length gs"
      using cluster_upto_shape[of gs "length gs"] by simp
    then show ?thesis by (simp add: survivors_def cl fin)
  qed
  show ?thesis
    using cl c3 c4 c5 c6 c7 c8 by (simp add: cluster_upto_Suc st)
qed

theorem cluster_merge_spec_witness:
  "distinct [''a'', ''b''] \<and> distinct [''a'', ''b'', ''c''] \<and> distinct [''b'', ''c'', ''d'']
   \<and> 1 < length [(''k0'', [''a'', ''b'']), (''k1'', [''a'', ''b'', ''c'']),
                 (''k2'', [''b'', ''c'', ''d''])]
   \<and> cluster [(''k0'', [''a'', ''b'']), (''k1'', [''a'', ''b'', ''c'']),
                 (''k2'', [''b'', ''c'', ''d''])]
       = ([(''k0'', [''a'', ''b'']), (''k1'', [''a'', ''b'', ''c'']),
           (''k2'', [''b'', ''c'', ''d'', ''a''])], [0, 1])
   \<and> survivors (cluster [(''k0'', [''a'', ''b'']), (''k1'', [''a'', ''b'', ''c'']),
                 (''k2'', [''b'', ''c'', ''d''])])
       = [(''k2'', [''b'', ''c'', ''d'', ''a''])]"
proof -
  have c: "cluster [(''k0'', [''a'', ''b'']), (''k1'', [''a'', ''b'', ''c'']),
                 (''k2'', [''b'', ''c'', ''d''])]
       = ([(''k0'', [''a'', ''b'']), (''k1'', [''a'', ''b'', ''c'']),
           (''k2'', [''b'', ''c'', ''d'', ''a''])], [0, 1])"
    by code_simp
  have s: "survivors (cluster [(''k0'', [''a'', ''b'']), (''k1'', [''a'', ''b'', ''c'']),
                 (''k2'', [''b'', ''c'', ''d''])])
       = [(''k2'', [''b'', ''c'', ''d'', ''a''])]"
    by code_simp
  show ?thesis
    using c s
      cluster_merge_spec[of "[(''k0'', [''a'', ''b'']), (''k1'', [''a'', ''b'', ''c'']),
                 (''k2'', [''b'', ''c'', ''d''])]" 1]
    by simp
qed

lemma fold_err_append:
  assumes step: "\<And>x s. I s \<Longrightarrow>
     \<exists>s'. f x s = Inr s' \<and> I s'
        \<and> (\<exists>new. R s' = R s @ new \<and> distinct new \<and> set new = G x - set (R s))"
  shows "I s \<Longrightarrow>
     \<exists>s'. fold_err f xs s = Inr s' \<and> I s'
        \<and> (\<exists>new. R s' = R s @ new \<and> distinct new
              \<and> set new = (\<Union>x \<in> set xs. G x) - set (R s))"
proof (induction xs arbitrary: s)
  case Nil
  then show ?case by simp
next
  case (Cons x xs)
  obtain s1 n1 where s1: "f x s = Inr s1" "I s1" "R s1 = R s @ n1" "distinct n1"
      "set n1 = G x - set (R s)"
    using step[OF Cons.prems] by blast
  obtain s2 n2 where s2: "fold_err f xs s1 = Inr s2" "I s2" "R s2 = R s1 @ n2" "distinct n2"
      "set n2 = (\<Union>x \<in> set xs. G x) - set (R s1)"
    using Cons.IH[OF s1(2)] by blast
  have "R s2 = R s @ (n1 @ n2)" using s1 s2 by simp
  moreover have "distinct (n1 @ n2)" using s1 s2 by auto
  moreover have "set (n1 @ n2) = (\<Union>x \<in> set (x # xs). G x) - set (R s)"
    using s1 s2 by auto
  ultimately show ?case using s1(1) s2(1,2) by auto
qed

lemma store_pair_calls:
  assumes "db ''Rewrites'' \<noteq> None"
  shows "store_pair t1 t2 db =
     (if t1 = t2 \<or> (t1, t2) \<in> set (stored db) then Inr db else add_rewrite db (t1, t2))"
proof -
  obtain rows where rows: "db ''Rewrites'' = Some rows" using assms by auto
  show ?thesis
    using rows
    by (auto simp: store_pair_def exist_rewrite_def stored_def filter_empty_conv)
qed

lemma store_pair_spec:
  assumes "same_but_rewrites db0 db"
  shows "\<exists>db'. store_pair t1 t2 db = Inr db' \<and> same_but_rewrites db0 db'
           \<and> (\<exists>new. stored db' = stored db @ new \<and> distinct new
                 \<and> set new = {p. p = (t1, t2) \<and> t1 \<noteq> t2} - set (stored db))"
proof -
  obtain rows where rows: "db ''Rewrites'' = Some rows"
    using assms by (auto simp: same_but_rewrites_def)
  show ?thesis
  proof (cases "t1 = t2 \<or> (t1, t2) \<in> set (stored db)")
    case True
    then have "store_pair t1 t2 db = Inr db"
      using rows by (simp add: store_pair_calls)
    moreover have "{p. p = (t1, t2) \<and> t1 \<noteq> t2} - set (stored db) = {}"
      using True by auto
    ultimately show ?thesis using assms by simp
  next
    case False
    then have "store_pair t1 t2 db = Inr (db(''Rewrites'' \<mapsto> rows @ [(t1, t2)]))"
      using rows by (simp add: store_pair_calls add_rewrite_def)
    moreover have "{p. p = (t1, t2) \<and> t1 \<noteq> t2} - set (stored db) = set [(t1, t2)]"
      using False by auto
    moreover have "stored (db(''Rewrites'' \<mapsto> rows @ [(t1, t2)])) = stored db @ [(t1, t2)]"
      using rows by (simp add: stored_def)
    moreover have "same_but_rewrites db0 (db(''Rewrites'' \<mapsto> rows @ [(t1, t2)]))"
      using assms by (simp add: same_but_rewrites_def)
    ultimately show ?thesis by (metis distinct_singleton)
  qed
qed

lemma store_group_spec:
  assumes "same_but_rewrites db0 db"
  shows "\<exists>db'. store_group g db = Inr db' \<and> same_but_rewrites db0 db'
           \<and> (\<exists>new. stored db' = stored db @ new \<and> distinct new
                 \<and> set new = pairs_of g - set (stored db))"
proof (cases "2 \<le> length (snd g)")
  case False
  then have "pairs_of g = {}" by (auto simp: pairs_of_def)
  then show ?thesis using assms False by (simp add: store_group_def)
next
  case True
  have inner: "\<And>t1 s. same_but_rewrites db0 s \<Longrightarrow>
      \<exists>s'. fold_err (\<lambda>t2. store_pair t1 t2) (snd g) s = Inr s' \<and> same_but_rewrites db0 s'
         \<and> (\<exists>new. stored s' = stored s @ new \<and> distinct new
               \<and> set new = (\<Union>t2 \<in> set (snd g). {p. p = (t1, t2) \<and> t1 \<noteq> t2}) - set (stored s))"
    by (rule fold_err_append[where I = "same_but_rewrites db0" and R = stored])
       (rule store_pair_spec)
  have outer: "\<exists>s'. fold_err (\<lambda>t1. fold_err (\<lambda>t2. store_pair t1 t2) (snd g)) (snd g) db = Inr s'
         \<and> same_but_rewrites db0 s'
         \<and> (\<exists>new. stored s' = stored db @ new \<and> distinct new
               \<and> set new =
                  (\<Union>t1 \<in> set (snd g). \<Union>t2 \<in> set (snd g). {p. p = (t1, t2) \<and> t1 \<noteq> t2})
                    - set (stored db))"
    by (rule fold_err_append[where I = "same_but_rewrites db0" and R = stored
          and G = "\<lambda>t1. \<Union>t2 \<in> set (snd g). {p. p = (t1, t2) \<and> t1 \<noteq> t2}"])
       (use inner assms in auto)
  have "(\<Union>t1 \<in> set (snd g). \<Union>t2 \<in> set (snd g). {p. p = (t1, t2) \<and> t1 \<noteq> t2}) = pairs_of g"
    using True by (auto simp: pairs_of_def)
  then show ?thesis using outer True by (simp add: store_group_def Let_def)
qed

lemma store_rewrites_spec:
  "\<exists>db'. store_rewrites E rs db = Inr db' \<and> same_but_rewrites db db'
     \<and> (\<exists>new. stored db' = stored db @ new \<and> distinct new
           \<and> set new = (\<Union>g \<in> set (take 10 (sorted_by_size_desc (dict_items E rs))). pairs_of g)
                          - set (stored db))"
proof -
  have c: "same_but_rewrites db (create_schema db)" "stored (create_schema db) = stored db"
    by (auto simp: create_schema_def stored_def same_but_rewrites_def split: option.splits)
  have "\<exists>s'. fold_err store_group (take 10 (sorted_by_size_desc (dict_items E rs)))
                (create_schema db) = Inr s'
         \<and> same_but_rewrites db s'
         \<and> (\<exists>new. stored s' = stored (create_schema db) @ new \<and> distinct new
               \<and> set new = (\<Union>g \<in> set (take 10 (sorted_by_size_desc (dict_items E rs))). pairs_of g)
                          - set (stored (create_schema db)))"
    by (rule fold_err_append[where I = "same_but_rewrites db" and R = stored])
       (use store_group_spec c in auto)
  then show ?thesis by (simp add: store_rewrites_def c)
qed

lemma sorted_by_size_desc_spec:
  "mset (sorted_by_size_desc rs) = mset rs
   \<and> sorted_wrt (\<lambda>g h. length (snd h) \<le> length (snd g)) (sorted_by_size_desc rs)
   \<and> (\<forall>g \<in> set (take n (sorted_by_size_desc rs)).
        \<forall>h \<in> set (drop n (sorted_by_size_desc rs)). length (snd h) \<le> length (snd g))"
proof -
  let ?f = "\<lambda>x::string \<times> string list. length (snd x)"
  let ?xs = "sorted_by_size_desc rs"
  have "sorted (map ?f (sort_key ?f (rev rs)))" by simp
  then have "sorted_wrt (\<lambda>a b. ?f a \<le> ?f b) (sort_key ?f (rev rs))"
    by (simp add: sorted_map)
  then have sw: "sorted_wrt (\<lambda>a b. ?f b \<le> ?f a) ?xs"
    by (simp add: sorted_by_size_desc_def sorted_wrt_rev)
  then have "sorted_wrt (\<lambda>a b. ?f b \<le> ?f a) (take n ?xs @ drop n ?xs)" by simp
  then have "\<forall>g \<in> set (take n ?xs). \<forall>h \<in> set (drop n ?xs). ?f h \<le> ?f g"
    unfolding sorted_wrt_append by blast
  moreover have "mset ?xs = mset rs" by (simp add: sorted_by_size_desc_def)
  ultimately show ?thesis using sw by simp
qed


lemma sorted_by_size_desc_stable:
  "filter (\<lambda>g. length (snd g) = k) (sorted_by_size_desc rs)
     = filter (\<lambda>g. length (snd g) = k) rs"
proof -
  have "filter (\<lambda>g. length (snd g) = k) (sort_key (\<lambda>x. length (snd x)) (rev rs))
      = filter (\<lambda>g. length (snd g) = k) (rev rs)"
    by (rule sort_key_stable)
  then show ?thesis
    by (simp add: sorted_by_size_desc_def rev_filter[symmetric])
qed

text \<open>
  Claim C9, as stated: the cutoff of the largest groups is a configurable parameter.
  It is not: \<open>extract_rewrites\<close> takes the corpus only and keeps the first ten groups.
  Of eleven disjoint groups, ten of three templates and one of two, the group of two
  survives the merge and none of its pairs is stored.
\<close>

theorem top_ten_hardwired:
  "case extract_from_groups example_env
          [(''n0'', [''y1'', ''y2'']),
           (''n1'', [''a1'', ''b1'', ''c1'']), (''n2'', [''a2'', ''b2'', ''c2'']),
           (''n3'', [''a3'', ''b3'', ''c3'']), (''n4'', [''a4'', ''b4'', ''c4'']),
           (''n5'', [''a5'', ''b5'', ''c5'']), (''n6'', [''a6'', ''b6'', ''c6'']),
           (''n7'', [''a7'', ''b7'', ''c7'']), (''n8'', [''a8'', ''b8'', ''c8'']),
           (''n9'', [''a9'', ''b9'', ''c9'']), (''n10'', [''a10'', ''b10'', ''c10''])]
          Map.empty of
     Inl e \<Rightarrow> False
   | Inr db \<Rightarrow> (''y1'', ''y2'') \<notin> set (stored db) \<and> (''y2'', ''y1'') \<notin> set (stored db)
       \<and> (''a10'', ''b10'') \<in> set (stored db) \<and> length (stored db) = 60"
  by code_simp


text \<open>
  The group of two is the one cut in every order in which the dictionary can be
  enumerated, since the ten other groups are larger.
\<close>

lemma eleven_groups_survive: "survivors (cluster eleven_groups) = eleven_groups"
  by code_simp

lemma eleven_groups_sizes:
  "g \<in> set eleven_groups \<Longrightarrow>
     (g = (''n0'', [''y1'', ''y2'']) \<or> (length (snd g) = 3 \<and> ''y1'' \<notin> set (snd g)))"
  unfolding eleven_groups_def by (elim set_ConsD[elim_format] disjE) simp_all

lemma eleven_groups_distinct: "distinct eleven_groups \<and> length eleven_groups = 11"
  by code_simp

lemma top_ten_any_order:
  assumes "mset (dict_items E eleven_groups) = mset eleven_groups"
  shows "\<exists>db'. extract_from_groups E eleven_groups Map.empty = Inr db'
           \<and> (''y1'', ''y2'') \<notin> set (stored db')"
proof -
  let ?xs = "sorted_by_size_desc (dict_items E eleven_groups)"
  let ?n0 = "(''n0'', [''y1'', ''y2''])"
  have m: "mset ?xs = mset eleven_groups"
    using sorted_by_size_desc_spec[where rs = "dict_items E eleven_groups"] assms by simp
  have setx: "set ?xs = set eleven_groups" using m by (metis set_mset_mset)
  have lenx: "length ?xs = 11"
    using m eleven_groups_distinct by (metis size_mset)
  have disx: "distinct ?xs"
    using m eleven_groups_distinct by (metis distinct_count_atmost_1 count_mset_0_iff mset_eq_imp_distinct_iff)
  have notin: "?n0 \<notin> set (take 10 ?xs)"
  proof
    assume a: "?n0 \<in> set (take 10 ?xs)"
    obtain h where h: "drop 10 ?xs = [h]"
      using lenx by (cases "drop 10 ?xs") (auto simp: length_Suc_conv dest: arg_cong[where f = length])
    have "distinct (take 10 ?xs @ drop 10 ?xs)" using disx by simp
    then have "h \<notin> set (take 10 ?xs)" using h by auto
    then have "h \<noteq> ?n0" using a by auto
    moreover have "h \<in> set eleven_groups"
      using h setx by (metis in_set_dropD list.set_intros(1))
    ultimately have "length (snd h) = 3" using eleven_groups_sizes[of h] by auto
    moreover have "length (snd h) \<le> length (snd ?n0)"
      using sorted_by_size_desc_spec[where rs = "dict_items E eleven_groups" and n = 10] a h
      by (metis list.set_intros(1))
    ultimately show False by simp
  qed
  obtain db' new where r: "store_rewrites E eleven_groups Map.empty = Inr db'"
      "stored db' = stored Map.empty @ new"
      "set new = (\<Union>g \<in> set (take 10 ?xs). pairs_of g) - set (stored Map.empty)"
    using store_rewrites_spec[of E eleven_groups Map.empty] by blast
  have "(''y1'', ''y2'') \<notin> pairs_of g" if "g \<in> set (take 10 ?xs)" for g
  proof -
    have "g \<in> set eleven_groups" using that setx by (metis in_set_takeD)
    moreover have "g \<noteq> ?n0" using that notin by auto
    ultimately have "''y1'' \<notin> set (snd g)" using eleven_groups_sizes[of g] by auto
    then show ?thesis by (simp add: pairs_of_def)
  qed
  then have "(''y1'', ''y2'') \<notin> set (stored db')"
    using r by (auto simp: stored_def)
  then show ?thesis
    using r(1) by (simp add: extract_from_groups_def eleven_groups_survive)
qed


text \<open>
  Claim C9, amended. Whatever permutation of the surviving groups \<^verbatim>\<open>rewrites.items()\<close>
  enumerates, the extraction succeeds from every database and appends to the table,
  once each, exactly the ordered pairs of different templates of the groups with at
  least two templates among the first ten of the sorted list that are not stored yet:
  \<open>add_rewrite\<close> is called when the templates differ and the pair is absent, and not
  otherwise. No other table changes. The sorted list is a permutation of the surviving
  groups in which no group after the tenth is larger than one of the first ten, and
  groups of equal size keep the order of \<^verbatim>\<open>items()\<close>. The cutoff is the constant 10.
\<close>

theorem extraction_stores_all_pairs:
  assumes "mset (dict_items E (survivors (cluster gs))) = mset (survivors (cluster gs))"
  shows "\<exists>db' new. extract_from_groups E gs db = Inr db'
     \<and> stored db' = stored db @ new \<and> distinct new
     \<and> set new =
         {(t1, t2). \<exists>g \<in> set (take 10 (sorted_by_size_desc
                                  (dict_items E (survivors (cluster gs))))).
            2 \<le> length (snd g) \<and> t1 \<in> set (snd g) \<and> t2 \<in> set (snd g) \<and> t1 \<noteq> t2}
           - set (stored db)
     \<and> (\<forall>t. t \<noteq> ''Rewrites'' \<longrightarrow> db' t = db t)
     \<and> mset (sorted_by_size_desc (dict_items E (survivors (cluster gs))))
         = mset (survivors (cluster gs))
     \<and> (\<forall>g \<in> set (take 10 (sorted_by_size_desc (dict_items E (survivors (cluster gs))))).
          \<forall>h \<in> set (drop 10 (sorted_by_size_desc (dict_items E (survivors (cluster gs))))).
            length (snd h) \<le> length (snd g))
     \<and> (\<forall>k. filter (\<lambda>g. length (snd g) = k)
                (sorted_by_size_desc (dict_items E (survivors (cluster gs))))
            = filter (\<lambda>g. length (snd g) = k) (dict_items E (survivors (cluster gs))))
     \<and> (\<forall>d t1 t2. d ''Rewrites'' \<noteq> None \<longrightarrow>
           store_pair t1 t2 d =
             (if t1 = t2 \<or> (t1, t2) \<in> set (stored d) then Inr d
              else add_rewrite d (t1, t2)))"
proof -
  let ?items = "dict_items E (survivors (cluster gs))"
  let ?top = "take 10 (sorted_by_size_desc ?items)"
  obtain db' new where r: "store_rewrites E (survivors (cluster gs)) db = Inr db'"
      "same_but_rewrites db db'" "stored db' = stored db @ new" "distinct new"
      "set new = (\<Union>g \<in> set ?top. pairs_of g) - set (stored db)"
    using store_rewrites_spec[of E "survivors (cluster gs)" db] by blast
  have p: "(\<Union>g \<in> set ?top. pairs_of g)
      = {(t1, t2). \<exists>g \<in> set ?top.
                2 \<le> length (snd g) \<and> t1 \<in> set (snd g) \<and> t2 \<in> set (snd g) \<and> t1 \<noteq> t2}"
    by (auto simp: pairs_of_def)
  have frame: "\<forall>t. t \<noteq> ''Rewrites'' \<longrightarrow> db' t = db t"
    using r(2) by (simp add: same_but_rewrites_def)
  have perm: "mset (sorted_by_size_desc ?items) = mset (survivors (cluster gs))"
    using sorted_by_size_desc_spec[where rs = ?items] assms by simp
  have cut: "\<forall>g \<in> set ?top. \<forall>h \<in> set (drop 10 (sorted_by_size_desc ?items)).
            length (snd h) \<le> length (snd g)"
    using sorted_by_size_desc_spec[where rs = ?items and n = 10] by blast
  have calls: "\<forall>d t1 t2. d ''Rewrites'' \<noteq> None \<longrightarrow>
           store_pair t1 t2 d =
             (if t1 = t2 \<or> (t1, t2) \<in> set (stored d) then Inr d
              else add_rewrite d (t1, t2))"
    using store_pair_calls by blast
  have "extract_from_groups E gs db = Inr db'
     \<and> stored db' = stored db @ new \<and> distinct new
     \<and> set new =
         {(t1, t2). \<exists>g \<in> set ?top.
            2 \<le> length (snd g) \<and> t1 \<in> set (snd g) \<and> t2 \<in> set (snd g) \<and> t1 \<noteq> t2}
           - set (stored db)"
    using r p by (simp add: extract_from_groups_def)
  then show ?thesis
    using frame perm cut calls sorted_by_size_desc_stable[of _ ?items]
    by (intro exI[of _ db'] exI[of _ new]) blast
qed


theorem extraction_stores_all_pairs_witness:
  "mset (dict_items (example_env\<lparr>dict_items := rev\<rparr>)
           (survivors (cluster [(''k0'', [''a'', ''b'']), (''k1'', [''a'', ''b'', ''c'']),
                                (''k2'', [''b'', ''c'', ''d''])])))
     = mset (survivors (cluster [(''k0'', [''a'', ''b'']), (''k1'', [''a'', ''b'', ''c'']),
                                 (''k2'', [''b'', ''c'', ''d''])]))
   \<and> (case extract_from_groups (example_env\<lparr>dict_items := rev\<rparr>)
             [(''k0'', [''a'', ''b'']), (''k1'', [''a'', ''b'', ''c'']),
              (''k2'', [''b'', ''c'', ''d''])]
             (Map.empty(''Rewrites'' \<mapsto> [(''b'', ''c'')])) of
        Inl e \<Rightarrow> False
      | Inr db \<Rightarrow>
          take 1 (stored db) = [(''b'', ''c'')] \<and> length (stored db) = 12
          \<and> set (stored db) =
             {(''b'', ''c''), (''b'', ''d''), (''b'', ''a''),
              (''c'', ''b''), (''c'', ''d''), (''c'', ''a''),
              (''d'', ''b''), (''d'', ''c''), (''d'', ''a''),
              (''a'', ''b''), (''a'', ''c''), (''a'', ''d'')})"
proof -
  have h: "mset (dict_items (example_env\<lparr>dict_items := rev\<rparr>)
           (survivors (cluster [(''k0'', [''a'', ''b'']), (''k1'', [''a'', ''b'', ''c'']),
                                (''k2'', [''b'', ''c'', ''d''])])))
     = mset (survivors (cluster [(''k0'', [''a'', ''b'']), (''k1'', [''a'', ''b'', ''c'']),
                                 (''k2'', [''b'', ''c'', ''d''])]))"
    by simp
  have e: "case extract_from_groups (example_env\<lparr>dict_items := rev\<rparr>)
             [(''k0'', [''a'', ''b'']), (''k1'', [''a'', ''b'', ''c'']),
              (''k2'', [''b'', ''c'', ''d''])]
             (Map.empty(''Rewrites'' \<mapsto> [(''b'', ''c'')])) of
        Inl e \<Rightarrow> False
      | Inr db \<Rightarrow>
          take 1 (stored db) = [(''b'', ''c'')] \<and> length (stored db) = 12
          \<and> set (stored db) =
             {(''b'', ''c''), (''b'', ''d''), (''b'', ''a''),
              (''c'', ''b''), (''c'', ''d''), (''c'', ''a''),
              (''d'', ''b''), (''d'', ''c''), (''d'', ''a''),
              (''a'', ''b''), (''a'', ''c''), (''a'', ''d'')}"
    by code_simp
  show ?thesis
    using h e
      extraction_stores_all_pairs[where E = "example_env\<lparr>dict_items := rev\<rparr>"
        and gs = "[(''k0'', [''a'', ''b'']), (''k1'', [''a'', ''b'', ''c'']),
                   (''k2'', [''b'', ''c'', ''d''])]"
        and db = "Map.empty(''Rewrites'' \<mapsto> [(''b'', ''c'')])"]
    by simp
qed


end
